theory Spec2Isabelle
  imports Main "HOL-Library.Char_ord"
begin

section \<open>Characters\<close>

text \<open>
  The lexer of \<^verbatim>\<open>src/pass/lexer/index.js\<close> works on one-character JavaScript strings.
  A character is modelled as a \<^typ>\<open>char\<close>, read as a code point in U+0000..U+00FF; on that
  range a code point is one UTF-16 unit, so \<^verbatim>\<open>String.length\<close> is \<^const>\<open>length\<close>.
\<close>

definition isAlpha :: "char \<Rightarrow> bool" where
  \<comment> \<open>\<^verbatim>\<open>/^[a-zA-Z]$/\<close>\<close>
  "isAlpha c \<longleftrightarrow>
     (CHR ''a'' \<le> c \<and> c \<le> CHR ''z'') \<or> (CHR ''A'' \<le> c \<and> c \<le> CHR ''Z'')"

definition isIdChar :: "char \<Rightarrow> bool" where
  \<comment> \<open>\<^verbatim>\<open>/^[a-zA-Z0-9-]$/\<close>\<close>
  "isIdChar c \<longleftrightarrow>
     (CHR ''a'' \<le> c \<and> c \<le> CHR ''z'') \<or> (CHR ''A'' \<le> c \<and> c \<le> CHR ''Z'') \<or>
     (CHR ''0'' \<le> c \<and> c \<le> CHR ''9'') \<or> c = CHR ''-''"

definition isWhitespace :: "char \<Rightarrow> bool" where
  \<comment> \<open>\<^verbatim>\<open>/(\s|\n|\t)/\<close>: the class \<^verbatim>\<open>\s\<close> of ECMAScript below U+0100 is
      TAB, LF, VT, FF, CR, SPACE and NO-BREAK SPACE; \<^verbatim>\<open>\n\<close> and \<^verbatim>\<open>\t\<close> are among them.\<close>
  "isWhitespace c \<longleftrightarrow>
     c \<in> {CHR 0x09, CHR 0x0A, CHR 0x0B, CHR 0x0C, CHR 0x0D, CHR 0x20, CHR 0xA0}"

section \<open>Position and Location\<close>

record Position =
  line :: nat
  column :: nat

text \<open>
  Modelled from the spec: the module \<^verbatim>\<open>@/data/location\<close> (\<^verbatim>\<open>Position.init\<close>,
  \<^verbatim>\<open>Position.shiftWith\<close>, \<^verbatim>\<open>Location.create\<close>) is imported by the state class but is not
  among the sources. The spec: a position is a 0-based line and column, created by
  \<^verbatim>\<open>init\<close>; \<^verbatim>\<open>shiftWith(character)\<close> increments the line and resets the column on a newline
  character, else increments the column.
\<close>

definition Position_init :: Position where
  "Position_init = \<lparr>line = 0, column = 0\<rparr>"

definition shiftWith :: "Position \<Rightarrow> char \<Rightarrow> Position" where
  "shiftWith p c =
     (if c = CHR 0x0A then \<lparr>line = line p + 1, column = 0\<rparr>
      else \<lparr>line = line p, column = column p + 1\<rparr>)"

record Location =
  start :: Position
  finish :: Position

text \<open>
  Modelled from the spec: \<^verbatim>\<open>Location.create(start, end)\<close> pairs two positions; the field
  \<^verbatim>\<open>end\<close> is written \<open>finish\<close> here.
\<close>

definition Location_create :: "Position \<Rightarrow> Position \<Rightarrow> Location" where
  "Location_create a b = \<lparr>start = a, finish = b\<rparr>"

section \<open>The character cursor\<close>

text \<open>
  Modelled from the spec: the module \<^verbatim>\<open>@/data/stream\<close> (\<^verbatim>\<open>withIterable\<close>, \<^verbatim>\<open>current\<close>,
  \<^verbatim>\<open>shiftForward\<close>) is not among the sources; only its test is. The spec: an immutable
  cursor over a finite sequence of characters; \<^verbatim>\<open>current()\<close> is the character under the
  cursor, or nothing past the last character or on an empty sequence;
  \<^verbatim>\<open>shiftForward()\<close> returns the cursor advanced by one, and at the end a cursor equal to
  itself. The cursor is represented by the characters it has not yet passed.
\<close>

record Stream =
  remaining :: string

definition withIterable :: "string \<Rightarrow> Stream" where
  "withIterable s = \<lparr>remaining = s\<rparr>"

definition Stream_current :: "Stream \<Rightarrow> char option" where
  "Stream_current s = (case remaining s of [] \<Rightarrow> None | c # _ \<Rightarrow> Some c)"

definition Stream_shiftForward :: "Stream \<Rightarrow> Stream" where
  "Stream_shiftForward s = (case remaining s of [] \<Rightarrow> s | _ # cs \<Rightarrow> \<lparr>remaining = cs\<rparr>)"

section \<open>Tokens and errors\<close>

text \<open>
  Modelled from the spec: the token constructors of \<^verbatim>\<open>@/data/lex-token\<close> and the error
  classes of \<^verbatim>\<open>@/pass/lexer/error\<close> are plain data that is not among the sources.
  \<^verbatim>\<open>init(tokens.XLexicon, args...)\<close> builds the token from its arguments.
\<close>

datatype Token =
    LParenLexicon Location
  | RParenLexicon Location
  | IdentifierLexicon string Location
  | StringLexicon string Location
  | WhiteSpaceLexicon nat Location

datatype error =
    EmptyInputError
  | UnexpectedChar char

section \<open>The lexer state\<close>

text \<open>
  The class \<^verbatim>\<open>State\<close>. The field \<^verbatim>\<open>_branch\<close> holds one of the four branch functions of
  the lexer; it is modelled by the name of the function.
\<close>

datatype Branch = BranchInit | BranchId | BranchString | BranchWS

record State =
  stream :: Stream
  branch :: Branch
  buffer :: string
  bufStart :: Position
  bufEnd :: Position

type_synonym StateProcess = "Token list \<times> (error + State)"

text \<open>
  A generator \<^verbatim>\<open>Generator<Lexicon, State, State>\<close> is modelled by the tokens it yields, in
  order, and then either the state it returns or the error it throws.
\<close>

definition State_create :: "Stream \<Rightarrow> Branch \<Rightarrow> State" where
  "State_create s b =
     \<lparr>stream = s, branch = b, buffer = [], bufStart = Position_init, bufEnd = Position_init\<rparr>"

definition enqueued :: "State \<Rightarrow> string" where
  "enqueued st = buffer st"

definition location :: "State \<Rightarrow> Location" where
  "location st = Location_create (bufStart st) (bufEnd st)"

definition current :: "State \<Rightarrow> char option" where
  "current st = Stream_current (stream st)"

definition dropBuffer :: "State \<Rightarrow> State" where
  "dropBuffer st = st\<lparr>buffer := [], bufStart := bufEnd st\<rparr>"

definition shiftForward :: "State \<Rightarrow> State" where
  "shiftForward st =
     (let s = Stream_shiftForward (stream st) in
      case current st of
        Some v \<Rightarrow> st\<lparr>stream := s, bufEnd := shiftWith (bufEnd st) v, buffer := buffer st @ [v]\<rparr>
      | None \<Rightarrow> st)"

definition setBranch :: "Branch \<Rightarrow> State \<Rightarrow> State" where
  "setBranch b st = st\<lparr>branch := b\<rparr>"

text \<open>
  Modelled from the spec: \<^verbatim>\<open>State.addInput\<close> is called by \<^verbatim>\<open>withState\<close> but the state
  class among the sources does not have it. The spec: the fresh cursor is spliced into
  the carried-over state, replacing only the cursor and preserving branch, buffer and
  positions.
\<close>

definition addInput :: "State \<Rightarrow> Stream \<Rightarrow> State" where
  "addInput st s = st\<lparr>stream := s\<rparr>"

section \<open>The branch functions\<close>

definition branchInit :: "char \<Rightarrow> State \<Rightarrow> StateProcess" where
  \<open>branchInit character st =
     (if isWhitespace character then ([], Inr (setBranch BranchWS st))
      else if isAlpha character then ([], Inr (setBranch BranchId (shiftForward st)))
      else if character = CHR ''"'' then
        ([], Inr (setBranch BranchString (dropBuffer (shiftForward st))))
      else if character = CHR '')'' then
        (let shifted = shiftForward st; loc = location shifted
         in ([RParenLexicon loc], Inr (dropBuffer shifted)))
      else if character = CHR ''('' then
        (let shifted = shiftForward st; loc = location shifted
         in ([LParenLexicon loc], Inr (dropBuffer shifted)))
      else ([], Inl (UnexpectedChar character)))\<close>

definition branchId :: "char \<Rightarrow> State \<Rightarrow> StateProcess" where
  "branchId character st =
     (if isIdChar character then ([], Inr (shiftForward st))
      else
        (let repr = enqueued st; loc = location st
         in ([IdentifierLexicon repr loc], Inr (setBranch BranchInit (dropBuffer st)))))"

definition branchString :: "char \<Rightarrow> State \<Rightarrow> StateProcess" where
  \<open>branchString character st =
     (if character \<noteq> CHR ''"'' then ([], Inr (shiftForward st))
      else
        (let content = enqueued st; shifted = shiftForward st; loc = location shifted
         in ([StringLexicon content loc], Inr (setBranch BranchInit (dropBuffer shifted)))))\<close>

definition branchWS :: "char \<Rightarrow> State \<Rightarrow> StateProcess" where
  "branchWS character st =
     (if isWhitespace character then ([], Inr (shiftForward st))
      else
        (let nchars = length (enqueued st); lchars = location st
         in ([WhiteSpaceLexicon nchars lchars], Inr (setBranch BranchInit (dropBuffer st)))))"

definition withBranch :: "State \<Rightarrow> char \<Rightarrow> StateProcess" where
  "withBranch st character =
     (case branch st of
        BranchInit \<Rightarrow> branchInit character st
      | BranchId \<Rightarrow> branchId character st
      | BranchString \<Rightarrow> branchString character st
      | BranchWS \<Rightarrow> branchWS character st)"

section \<open>The driver loop\<close>

text \<open>
  The number of dispatches still possible: three per character not yet consumed, plus
  the dispatches the active branch can make on the current character without consuming it.
\<close>

definition loop_rank :: "State \<Rightarrow> nat" where
  "loop_rank st =
     (case branch st of
        BranchInit \<Rightarrow> 1
      | BranchId \<Rightarrow> 2
      | BranchString \<Rightarrow> 0
      | BranchWS \<Rightarrow> (case current st of
                       None \<Rightarrow> 0
                     | Some c \<Rightarrow> if isWhitespace c then 0 else 2))"

definition loop_measure :: "State \<Rightarrow> nat" where
  "loop_measure st = 3 * length (remaining (stream st)) + loop_rank st"

lemma withBranch_decreases:
  assumes "current st = Some c" and "withBranch st c = (ts, Inr st')"
  shows "loop_measure st' < loop_measure st"
proof -
  obtain cs where rem: "remaining (stream st) = c # cs"
    using assms(1) by (auto simp: current_def Stream_current_def split: list.splits)
  show ?thesis
  proof (cases "branch st")
    case BranchInit
    with assms rem show ?thesis
      by (auto simp: withBranch_def branchInit_def loop_measure_def loop_rank_def
          setBranch_def shiftForward_def dropBuffer_def current_def Stream_current_def
          Stream_shiftForward_def Let_def split: if_splits)
  next
    case BranchId
    with assms rem show ?thesis
      by (auto simp: withBranch_def branchId_def loop_measure_def loop_rank_def
          setBranch_def shiftForward_def dropBuffer_def current_def Stream_current_def
          Stream_shiftForward_def Let_def split: if_splits)
  next
    case BranchString
    with assms rem show ?thesis
      by (auto simp: withBranch_def branchString_def loop_measure_def loop_rank_def
          setBranch_def shiftForward_def dropBuffer_def current_def Stream_current_def
          Stream_shiftForward_def Let_def split: if_splits)
  next
    case BranchWS
    with assms rem show ?thesis
      by (auto simp: withBranch_def branchWS_def loop_measure_def loop_rank_def
          setBranch_def shiftForward_def dropBuffer_def current_def Stream_current_def
          Stream_shiftForward_def Let_def split: if_splits list.splits)
  qed
qed

function loop :: "State \<Rightarrow> StateProcess" where
  "loop st =
     (case current st of
        Some c \<Rightarrow>
          (case withBranch st c of
             (ts, Inl e) \<Rightarrow> (ts, Inl e)
           | (ts, Inr update) \<Rightarrow> (case loop update of (ts', r) \<Rightarrow> (ts @ ts', r)))
      | None \<Rightarrow> ([], Inr st))"
  by pat_completeness auto
termination
  by (relation "measure loop_measure") (auto intro: withBranch_decreases [OF _ sym])

declare loop.simps [simp del]

definition withState :: "State \<Rightarrow> Stream \<Rightarrow> StateProcess" where
  "withState st s = loop (addInput st s)"

section \<open>The chunk scheduler\<close>

text \<open>
  The asynchronous source is modelled by the list of results its successive
  \<^verbatim>\<open>next()\<close> calls resolve to, each a pair of \<^verbatim>\<open>done\<close> and \<^verbatim>\<open>value\<close>, where a \<^verbatim>\<open>null\<close> or
  \<^verbatim>\<open>undefined\<close> value is \<open>None\<close> (the test \<^verbatim>\<open>value == null\<close> holds of these two
  only). A source whose list is used up reports completion.
  The asynchronous generator yields tokens and then completes or throws.
\<close>

record IterResult =
  isDone :: bool
  chunk :: "string option"

fun asyncLoop :: "State \<Rightarrow> IterResult list \<Rightarrow> Token list \<times> error option" where
  "asyncLoop st [] = ([], None)"
| "asyncLoop st (r # iterator) =
     (case (isDone r, chunk r) of
        (False, None) \<Rightarrow> ([], Some EmptyInputError)
      | (False, Some v) \<Rightarrow>
          (case withState st (withIterable v) of
             (ts, Inl e) \<Rightarrow> (ts, Some e)
           | (ts, Inr update) \<Rightarrow>
               (case asyncLoop update iterator of (ts', r') \<Rightarrow> (ts @ ts', r')))
      | (True, _) \<Rightarrow> ([], None))"

definition initialState :: State where
  "initialState = State_create (withIterable '''') BranchInit"

definition tokenStream :: "IterResult list \<Rightarrow> Token list \<times> error option" where
  "tokenStream input = asyncLoop initialState input"

section \<open>Properties\<close>

text \<open>The characters on which the Init branch has no case.\<close>

definition unexpected :: "char \<Rightarrow> bool" where
  \<open>unexpected c \<longleftrightarrow>
     \<not> isWhitespace c \<and> \<not> isAlpha c \<and> c \<noteq> CHR ''"'' \<and> c \<noteq> CHR '')'' \<and> c \<noteq> CHR ''(''\<close>

text \<open>
  One iteration of the driver loop that returns a state: the active branch is
  dispatched on the current character.
\<close>

definition dispatch :: "State \<Rightarrow> State \<Rightarrow> bool" where
  "dispatch st st' \<longleftrightarrow>
     (case current st of None \<Rightarrow> False | Some c \<Rightarrow> snd (withBranch st c) = Inr st')"

text \<open>
  The invariant of the buffer positions: the end is the start shifted by each buffered
  character in turn.
\<close>

definition bufferInv :: "State \<Rightarrow> bool" where
  "bufferInv st \<longleftrightarrow> bufEnd st = foldl shiftWith (bufStart st) (buffer st)"

text \<open>
  The states reachable from the initial state, or from any freshly created state, by the
  operations of the state class, the branch functions (on any character) and the driver.
\<close>

inductive reachable :: "State \<Rightarrow> bool" where
  initial: "reachable initialState"
| create: "reachable (State_create s b)"
| addInput: "reachable st \<Longrightarrow> reachable (addInput st s)"
| shiftForward: "reachable st \<Longrightarrow> reachable (shiftForward st)"
| dropBuffer: "reachable st \<Longrightarrow> reachable (dropBuffer st)"
| setBranch: "reachable st \<Longrightarrow> reachable (setBranch b st)"
| branchInit: "reachable st \<Longrightarrow> branchInit c st = (ts, Inr st') \<Longrightarrow> reachable st'"
| branchId: "reachable st \<Longrightarrow> branchId c st = (ts, Inr st') \<Longrightarrow> reachable st'"
| branchString: "reachable st \<Longrightarrow> branchString c st = (ts, Inr st') \<Longrightarrow> reachable st'"
| branchWS: "reachable st \<Longrightarrow> branchWS c st = (ts, Inr st') \<Longrightarrow> reachable st'"
| withBranch: "reachable st \<Longrightarrow> withBranch st c = (ts, Inr st') \<Longrightarrow> reachable st'"
| loop: "reachable st \<Longrightarrow> loop st = (ts, Inr st') \<Longrightarrow> reachable st'"
| withState: "reachable st \<Longrightarrow> withState st s = (ts, Inr st') \<Longrightarrow> reachable st'"

text \<open>
  What the consumer of the scheduler sees of a run of the driver: the tokens, and the
  error if it threw.
\<close>

definition finished :: "StateProcess \<Rightarrow> Token list \<times> error option" where
  "finished p = (case p of (ts, Inl e) \<Rightarrow> (ts, Some e) | (ts, Inr _) \<Rightarrow> (ts, None))"

text \<open>The source that delivers the given chunks one at a time and then completes.\<close>

definition chunkSource :: "string list \<Rightarrow> IterResult list" where
  "chunkSource cs =
     map (\<lambda>c. \<lparr>isDone = False, chunk = Some c\<rparr>) cs @ [\<lparr>isDone = True, chunk = None\<rparr>]"

text \<open>
  The source text between two positions. \<open>offsetOf target p text\<close> is the number of
  characters of \<open>text\<close> to pass, starting at position \<open>p\<close>, to stand at \<open>target\<close>; the
  span of a location is the text from the offset of its start to the offset of its end.
\<close>

fun offsetOf :: "Position \<Rightarrow> Position \<Rightarrow> string \<Rightarrow> nat option" where
  "offsetOf target p [] = (if p = target then Some 0 else None)"
| "offsetOf target p (c # cs) =
     (if p = target then Some 0 else map_option Suc (offsetOf target (shiftWith p c) cs))"

definition span :: "string \<Rightarrow> Location \<Rightarrow> string" where
  "span text loc =
     (case (offsetOf (start loc) Position_init text, offsetOf (finish loc) Position_init text) of
        (Some i, Some j) \<Rightarrow> take (j - i) (drop i text)
      | _ \<Rightarrow> [])"

text \<open>
  The text a token stands for, as the round-trip property reads it: the literal
  parenthesis for a parenthesis token, the span of its location for any other token.
\<close>

fun tokenSpan :: "string \<Rightarrow> Token \<Rightarrow> string" where
  "tokenSpan text (LParenLexicon loc) = ''(''"
| "tokenSpan text (RParenLexicon loc) = '')''"
| "tokenSpan text (IdentifierLexicon repr loc) = span text loc"
| "tokenSpan text (StringLexicon content loc) = span text loc"
| "tokenSpan text (WhiteSpaceLexicon nchars loc) = span text loc"

definition reconstruct :: "string \<Rightarrow> Token list \<Rightarrow> string" where
  "reconstruct text ts = concat (map (tokenSpan text) ts)"

text \<open>
  The same with a String token read as its content between two double quotes, and the
  text a state has consumed without having emitted it: its buffer, after the opening
  quote when it is inside a string.
\<close>

fun tokenLexeme :: "string \<Rightarrow> Token \<Rightarrow> string" where
  \<open>tokenLexeme text (StringLexicon content loc) = CHR ''"'' # content @ [CHR ''"'']\<close>
| "tokenLexeme text t = tokenSpan text t"

definition reconstructLexemes :: "string \<Rightarrow> Token list \<Rightarrow> string" where
  "reconstructLexemes text ts = concat (map (tokenLexeme text) ts)"

definition openQuote :: "State \<Rightarrow> string" where
  \<open>openQuote st = (if branch st = BranchString then [CHR ''"''] else [])\<close>

definition pending :: "State \<Rightarrow> string" where
  "pending st = openQuote st @ buffer st"

text \<open>
  The position after a prefix of the input, the order in which positions follow one
  another, and the state of a run over \<open>text\<close> that has emitted the tokens of the prefix
  \<open>d\<close> and holds the text that follows it.
\<close>

definition posAt :: "string \<Rightarrow> Position" where
  "posAt xs = foldl shiftWith Position_init xs"

definition pos_less :: "Position \<Rightarrow> Position \<Rightarrow> bool" where
  "pos_less p q \<longleftrightarrow> line p < line q \<or> line p = line q \<and> column p < column q"

definition aligned :: "string \<Rightarrow> string \<Rightarrow> State \<Rightarrow> bool" where
  "aligned text d st \<longleftrightarrow>
     text = d @ pending st @ remaining (stream st) \<and>
     bufStart st = posAt (d @ openQuote st) \<and>
     bufEnd st = posAt (d @ pending st) \<and>
     (branch st = BranchInit \<longrightarrow> buffer st = [])"

text \<open>
  A run of the driver as the chain of its dispatches, from a state to a later one,
  with the tokens the dispatches yield and the characters they consume, both in order.
  A dispatch either returns the cursor it was given, and consumes nothing, or returns
  the cursor shifted forward, and consumes the character it was dispatched on.
\<close>

inductive run :: "State \<Rightarrow> Token list \<Rightarrow> string \<Rightarrow> State \<Rightarrow> bool" where
  stop: "run st [] [] st"
| keep: "current st = Some c \<Longrightarrow> withBranch st c = (ts, Inr u) \<Longrightarrow> stream u = stream st \<Longrightarrow>
     run u ts' cs st' \<Longrightarrow> run st (ts @ ts') cs st'"
| consume: "current st = Some c \<Longrightarrow> withBranch st c = (ts, Inr u) \<Longrightarrow>
     stream u = Stream_shiftForward (stream st) \<Longrightarrow>
     run u ts' cs st' \<Longrightarrow> run st (ts @ ts') (c # cs) st'"

section \<open>Scenarios\<close>

text \<open>
  C8. The single chunk \<^verbatim>\<open>(abc)\<close> yields exactly three tokens: LeftParen at 0:0-0:1,
  Identifier \<^verbatim>\<open>abc\<close> at 0:1-0:4 and RightParen at 0:4-0:5, and the run completes.
\<close>

theorem tokenStream_paren_abc:
  "tokenStream [\<lparr>isDone = False, chunk = Some ''(abc)''\<rparr>] =
     ([LParenLexicon
         \<lparr>start = \<lparr>line = 0, column = 0\<rparr>, finish = \<lparr>line = 0, column = 1\<rparr>\<rparr>,
       IdentifierLexicon ''abc''
         \<lparr>start = \<lparr>line = 0, column = 1\<rparr>, finish = \<lparr>line = 0, column = 4\<rparr>\<rparr>,
       RParenLexicon
         \<lparr>start = \<lparr>line = 0, column = 4\<rparr>, finish = \<lparr>line = 0, column = 5\<rparr>\<rparr>],
      None)"
  by code_simp

text \<open>
  C2. On the single chunk \<^verbatim>\<open>"hi there"\<close> the code yields exactly one token, a String
  token with content \<^verbatim>\<open>hi there\<close>. Its location ends at 0:10, just past the closing
  quote, but starts at 0:1, just past the opening quote, and not at the quote itself
  (0:0): the Init branch discards the quote with \<^verbatim>\<open>dropBuffer\<close>, which also moves the
  start of the buffer.
\<close>

theorem tokenStream_string_hi_there:
  \<open>tokenStream [\<lparr>isDone = False, chunk = Some ''"hi there"''\<rparr>] =
     ([StringLexicon ''hi there''
         \<lparr>start = \<lparr>line = 0, column = 1\<rparr>, finish = \<lparr>line = 0, column = 10\<rparr>\<rparr>],
      None) \<and>
   tokenStream [\<lparr>isDone = False, chunk = Some ''"hi there"''\<rparr>] \<noteq>
     ([StringLexicon ''hi there''
         \<lparr>start = \<lparr>line = 0, column = 0\<rparr>, finish = \<lparr>line = 0, column = 10\<rparr>\<rparr>],
      None)\<close>
  by code_simp

section \<open>Exhausted states\<close>

text \<open>
  C9. On a state whose cursor is exhausted, \<^verbatim>\<open>shiftForward\<close> returns the state itself:
  cursor, branch, buffer and both positions are unchanged, so a second call changes
  nothing either.
\<close>

theorem shiftForward_exhausted:
  "current st = None \<Longrightarrow> shiftForward st = st \<and> shiftForward (shiftForward st) = shiftForward st"
  by (simp add: shiftForward_def)

theorem shiftForward_exhausted_witness:
  "current (State_create (withIterable '''') BranchId) = None \<and>
   shiftForward (State_create (withIterable '''') BranchId) =
     State_create (withIterable '''') BranchId"
  using shiftForward_exhausted [of "State_create (withIterable '''') BranchId"]
  by (simp add: current_def Stream_current_def State_create_def withIterable_def)

section \<open>Empty chunks\<close>

lemma loop_exhausted: "current st = None \<Longrightarrow> loop st = ([], Inr st)"
  by (simp add: loop.simps)

lemma current_addInput_empty: "current (addInput st (withIterable [])) = None"
  by (simp add: current_def addInput_def withIterable_def Stream_current_def)

text \<open>
  C10. A pull that resolves to \<^verbatim>\<open>done: false\<close> with the empty string as value raises
  nothing: the chunk contributes no token, the state carried over keeps its branch,
  buffer and positions, and the scheduler goes on to the next pull with that state.
\<close>

theorem asyncLoop_empty_chunk:
  "withState st (withIterable '''') = ([], Inr (addInput st (withIterable ''''))) \<and>
   branch (addInput st (withIterable '''')) = branch st \<and>
   buffer (addInput st (withIterable '''')) = buffer st \<and>
   bufStart (addInput st (withIterable '''')) = bufStart st \<and>
   bufEnd (addInput st (withIterable '''')) = bufEnd st \<and>
   asyncLoop st (\<lparr>isDone = False, chunk = Some ''''\<rparr> # iterator) =
     asyncLoop (addInput st (withIterable '''')) iterator"
proof -
  have w: "withState st (withIterable '''') = ([], Inr (addInput st (withIterable '''')))"
    by (simp add: withState_def loop_exhausted current_addInput_empty)
  have "asyncLoop st (\<lparr>isDone = False, chunk = Some ''''\<rparr> # iterator) =
     asyncLoop (addInput st (withIterable '''')) iterator"
    by (simp add: w split: prod.splits)
  with w show ?thesis
    by (simp add: addInput_def)
qed

section \<open>Errors raised\<close>

lemma branchInit_error_iff:
  "snd (branchInit c st) = Inl e \<longleftrightarrow> e = UnexpectedChar c \<and> unexpected c"
  by (auto simp: branchInit_def unexpected_def Let_def)

lemma branchInit_unexpected:
  "unexpected c \<Longrightarrow> branchInit c st = ([], Inl (UnexpectedChar c))"
  by (simp add: branchInit_def unexpected_def)

lemma branchId_no_error: "snd (branchId c st) \<noteq> Inl e"
  by (simp add: branchId_def Let_def)

lemma branchString_no_error: "snd (branchString c st) \<noteq> Inl e"
  by (simp add: branchString_def Let_def)

lemma branchWS_no_error: "snd (branchWS c st) \<noteq> Inl e"
  by (simp add: branchWS_def Let_def)

lemma withBranch_error_iff:
  "snd (withBranch st c) = Inl e \<longleftrightarrow> branch st = BranchInit \<and> e = UnexpectedChar c \<and> unexpected c"
  by (cases "branch st")
     (simp_all add: withBranch_def branchInit_error_iff branchId_no_error
        branchString_no_error branchWS_no_error)

lemma withBranch_error:
  assumes "withBranch st c = (ts, Inl e)"
  shows "ts = [] \<and> branch st = BranchInit \<and> e = UnexpectedChar c \<and> unexpected c"
proof -
  from assms have "snd (withBranch st c) = Inl e" by simp
  then have *: "branch st = BranchInit \<and> e = UnexpectedChar c \<and> unexpected c"
    by (simp add: withBranch_error_iff)
  with assms show ?thesis
    by (simp add: withBranch_def branchInit_unexpected)
qed

lemma loop_error_step:
  "current st = Some c \<Longrightarrow> withBranch st c = (ts, Inl e) \<Longrightarrow> loop st = (ts, Inl e)"
  by (simp add: loop.simps)

lemma loop_ok_step:
  "current st = Some c \<Longrightarrow> withBranch st c = (ts, Inr update) \<Longrightarrow>
   loop st = (case loop update of (ts', r) \<Rightarrow> (ts @ ts', r))"
  by (simp add: loop.simps)

lemma loop_steps_induct [case_names step]:
  assumes "\<And>st. (\<And>c ts update. current st = Some c \<Longrightarrow> withBranch st c = (ts, Inr update) \<Longrightarrow> P update)
             \<Longrightarrow> P st"
  shows "P st"
proof (induction st rule: loop.induct)
  case (1 st)
  show ?case
  proof (rule assms)
    fix c ts update
    assume "current st = Some c" and "withBranch st c = (ts, Inr update)"
    then show "P update" using "1.IH" by simp
  qed
qed

lemma loop_error_reaches:
  "loop st = (ts, Inl e) \<Longrightarrow>
   \<exists>st' c. dispatch\<^sup>*\<^sup>* st st' \<and> current st' = Some c \<and> branch st' = BranchInit \<and>
     unexpected c \<and> e = UnexpectedChar c"
proof (induction st arbitrary: ts rule: loop_steps_induct)
  case (step st)
  show ?case
  proof (cases "current st")
    case None
    with step.prems show ?thesis by (simp add: loop.simps)
  next
    case (Some c)
    obtain ts1 r1 where w: "withBranch st c = (ts1, r1)" by (cases "withBranch st c")
    show ?thesis
    proof (cases r1)
      case (Inl e1)
      with Some w step.prems have "e1 = e" by (simp add: loop.simps)
      with Inl w have "branch st = BranchInit \<and> e = UnexpectedChar c \<and> unexpected c"
        using withBranch_error by blast
      with Some show ?thesis by blast
    next
      case (Inr update)
      from w Inr have w': "withBranch st c = (ts1, Inr update)" by simp
      obtain ts2 r2 where l: "loop update = (ts2, r2)" by (cases "loop update")
      with Some w Inr step.prems have "r2 = Inl e" by (simp add: loop.simps)
      with l have "loop update = (ts2, Inl e)" by simp
      from step.IH [OF Some w' this]
      obtain st' c' where *: "dispatch\<^sup>*\<^sup>* update st'" "current st' = Some c'"
        "branch st' = BranchInit" "unexpected c'" "e = UnexpectedChar c'" by blast
      from Some w Inr have "dispatch st update" by (simp add: dispatch_def)
      with *(1) have "dispatch\<^sup>*\<^sup>* st st'" by (rule converse_rtranclp_into_rtranclp [rotated])
      with *(2-5) show ?thesis by blast
    qed
  qed
qed

lemma dispatch_loop_error:
  assumes "dispatch\<^sup>*\<^sup>* st st'" and "current st' = Some c" and "branch st' = BranchInit"
    and "unexpected c"
  shows "\<exists>ts. loop st = (ts, Inl (UnexpectedChar c))"
  using assms
proof (induction rule: converse_rtranclp_induct)
  case base
  then have "loop st' = ([], Inl (UnexpectedChar c))"
    by (simp add: loop.simps withBranch_def branchInit_unexpected)
  then show ?case by blast
next
  case (step y z)
  then obtain ts where l: "loop z = (ts, Inl (UnexpectedChar c))" by blast
  from step(1) obtain d ts0 where "current y = Some d" "withBranch y d = (ts0, Inr z)"
    by (auto simp: dispatch_def split: option.splits) (metis prod.collapse)
  with l have "loop y = (ts0 @ ts, Inl (UnexpectedChar c))"
    by (simp add: loop_ok_step)
  then show ?case by blast
qed

lemma loop_never_EmptyInputError: "loop st \<noteq> (ts, Inl EmptyInputError)"
  using loop_error_reaches [of st ts EmptyInputError] by auto


text \<open>
  C4. \<^verbatim>\<open>UnexpectedChar\<close> is raised exactly by the Init branch on a character that is
  neither whitespace, nor alphabetic, nor a double quote, nor a parenthesis, and it
  carries that character; the other branches raise nothing. A run of the driver loop
  raises it exactly when some dispatch of the run reaches the Init branch on such a
  character; the loop yields no token at that dispatch and stops, and the scheduler
  passes the error on without pulling another chunk.
\<close>

theorem UnexpectedChar_raised:
  "(snd (branchInit c st) = Inl e \<longleftrightarrow> e = UnexpectedChar c \<and> unexpected c) \<and>
   (unexpected c \<longrightarrow> branchInit c st = ([], Inl (UnexpectedChar c))) \<and>
   snd (branchId c st) \<noteq> Inl e \<and> snd (branchString c st) \<noteq> Inl e \<and>
   snd (branchWS c st) \<noteq> Inl e \<and>
   ((\<exists>ts. loop st = (ts, Inl e)) \<longleftrightarrow>
      (\<exists>st' c'. dispatch\<^sup>*\<^sup>* st st' \<and> current st' = Some c' \<and> branch st' = BranchInit \<and>
         unexpected c' \<and> e = UnexpectedChar c')) \<and>
   (current st = Some c \<and> branch st = BranchInit \<and> unexpected c \<longrightarrow>
      loop st = ([], Inl (UnexpectedChar c))) \<and>
   (withState st (withIterable v) = (ts, Inl e) \<longrightarrow>
      asyncLoop st (\<lparr>isDone = False, chunk = Some v\<rparr> # iterator) = (ts, Some e))"
proof -
  have "(\<exists>ts. loop st = (ts, Inl e)) \<longleftrightarrow>
      (\<exists>st' c'. dispatch\<^sup>*\<^sup>* st st' \<and> current st' = Some c' \<and> branch st' = BranchInit \<and>
         unexpected c' \<and> e = UnexpectedChar c')"
    using loop_error_reaches dispatch_loop_error by blast
  moreover have "current st = Some c \<and> branch st = BranchInit \<and> unexpected c \<longrightarrow>
      loop st = ([], Inl (UnexpectedChar c))"
    by (simp add: loop.simps withBranch_def branchInit_unexpected)
  moreover have "withState st (withIterable v) = (ts, Inl e) \<longrightarrow>
      asyncLoop st (\<lparr>isDone = False, chunk = Some v\<rparr> # iterator) = (ts, Some e)"
    by simp
  ultimately show ?thesis
    by (simp add: branchInit_error_iff branchInit_unexpected branchId_no_error
        branchString_no_error branchWS_no_error)
qed

theorem UnexpectedChar_raised_witness:
  "unexpected CHR ''#'' \<and>
   withState initialState (withIterable ''a #b'') =
     ([IdentifierLexicon ''a''
         \<lparr>start = \<lparr>line = 0, column = 0\<rparr>, finish = \<lparr>line = 0, column = 1\<rparr>\<rparr>,
       WhiteSpaceLexicon 1
         \<lparr>start = \<lparr>line = 0, column = 1\<rparr>, finish = \<lparr>line = 0, column = 2\<rparr>\<rparr>],
      Inl (UnexpectedChar CHR ''#'')) \<and>
   tokenStream [\<lparr>isDone = False, chunk = Some ''a #b''\<rparr>, \<lparr>isDone = False, chunk = Some ''c''\<rparr>] =
     ([IdentifierLexicon ''a''
         \<lparr>start = \<lparr>line = 0, column = 0\<rparr>, finish = \<lparr>line = 0, column = 1\<rparr>\<rparr>,
       WhiteSpaceLexicon 1
         \<lparr>start = \<lparr>line = 0, column = 1\<rparr>, finish = \<lparr>line = 0, column = 2\<rparr>\<rparr>],
      Some (UnexpectedChar CHR ''#''))"
proof -
  have u: "unexpected CHR ''#''"
    by (simp add: unexpected_def isWhitespace_def isAlpha_def less_eq_char_def)
  have w: "withState initialState (withIterable ''a #b'') =
     ([IdentifierLexicon ''a''
         \<lparr>start = \<lparr>line = 0, column = 0\<rparr>, finish = \<lparr>line = 0, column = 1\<rparr>\<rparr>,
       WhiteSpaceLexicon 1
         \<lparr>start = \<lparr>line = 0, column = 1\<rparr>, finish = \<lparr>line = 0, column = 2\<rparr>\<rparr>],
      Inl (UnexpectedChar CHR ''#''))"
    by code_simp
  from u w UnexpectedChar_raised [of "CHR ''#''" initialState "UnexpectedChar CHR ''#''" "''a #b''"
      "[IdentifierLexicon ''a''
         \<lparr>start = \<lparr>line = 0, column = 0\<rparr>, finish = \<lparr>line = 0, column = 1\<rparr>\<rparr>,
       WhiteSpaceLexicon 1
         \<lparr>start = \<lparr>line = 0, column = 1\<rparr>, finish = \<lparr>line = 0, column = 2\<rparr>\<rparr>]"
      "[\<lparr>isDone = False, chunk = Some ''c''\<rparr>]"]
  show ?thesis
    by (simp add: tokenStream_def)
qed

text \<open>
  C5, as stated: \<^verbatim>\<open>EmptyInputError\<close> is raised when a pull resolves to \<^verbatim>\<open>done: false\<close>
  with an absent or an empty value. A pull whose value is the empty string raises
  nothing.
\<close>

theorem EmptyInputError_empty_string_counterexample:
  "snd (tokenStream [\<lparr>isDone = False, chunk = Some ''''\<rparr>]) \<noteq> Some EmptyInputError"
  by code_simp

text \<open>
  C5, amended: \<^verbatim>\<open>EmptyInputError\<close> is raised exactly when a pull that the scheduler makes
  resolves to \<^verbatim>\<open>done: false\<close> with an absent value (\<^verbatim>\<open>null\<close> or \<^verbatim>\<open>undefined\<close>). At such
  a pull the scheduler raises at once, with no further token and without looking at the
  rest of the source; otherwise the error can only come from a later pull, which is made
  only after the present chunk tokenized without error.
\<close>

theorem EmptyInputError_raised:
  "(\<not> isDone r \<and> chunk r = None \<longrightarrow>
      asyncLoop st (r # iterator) = ([], Some EmptyInputError)) \<and>
   (snd (asyncLoop st (r # iterator)) = Some EmptyInputError \<longleftrightarrow>
      \<not> isDone r \<and>
      (chunk r = None \<or>
       (\<exists>v ts update. chunk r = Some v \<and> withState st (withIterable v) = (ts, Inr update) \<and>
          snd (asyncLoop update iterator) = Some EmptyInputError)))"
proof (cases "isDone r")
  case True
  then show ?thesis by simp
next
  case False
  show ?thesis
  proof (cases "chunk r")
    case None
    with False show ?thesis by simp
  next
    case (Some v)
    obtain ts res where w: "withState st (withIterable v) = (ts, res)"
      by (cases "withState st (withIterable v)")
    show ?thesis
    proof (cases res)
      case (Inl e)
      with w have "e \<noteq> EmptyInputError"
        using loop_never_EmptyInputError by (auto simp: withState_def)
      with False Some w Inl show ?thesis by simp
    next
      case (Inr update)
      with False Some w show ?thesis
        by (simp split: prod.splits)
    qed
  qed
qed

theorem EmptyInputError_raised_witness:
  "\<not> isDone \<lparr>isDone = False, chunk = None\<rparr> \<and> chunk \<lparr>isDone = False, chunk = None\<rparr> = None \<and>
   tokenStream [\<lparr>isDone = False, chunk = None\<rparr>, \<lparr>isDone = False, chunk = Some ''a b''\<rparr>] =
     ([], Some EmptyInputError)"
  using EmptyInputError_raised [of "\<lparr>isDone = False, chunk = None\<rparr>" initialState
      "[\<lparr>isDone = False, chunk = Some ''a b''\<rparr>]"]
  by (simp add: tokenStream_def)

section \<open>The buffer invariant holds\<close>

lemma bufferInv_create: "bufferInv (State_create s b)"
  by (simp add: bufferInv_def State_create_def)

lemma bufferInv_addInput: "bufferInv st \<Longrightarrow> bufferInv (addInput st s)"
  by (simp add: bufferInv_def addInput_def)

lemma bufferInv_shiftForward: "bufferInv st \<Longrightarrow> bufferInv (shiftForward st)"
  by (simp add: bufferInv_def shiftForward_def split: option.splits)

lemma bufferInv_dropBuffer: "bufferInv (dropBuffer st)"
  by (simp add: bufferInv_def dropBuffer_def)

lemma bufferInv_setBranch: "bufferInv st \<Longrightarrow> bufferInv (setBranch b st)"
  by (simp add: bufferInv_def setBranch_def)

lemma bufferInv_branchInit:
  "bufferInv st \<Longrightarrow> branchInit c st = (ts, Inr st') \<Longrightarrow> bufferInv st'"
  by (auto simp: branchInit_def Let_def bufferInv_setBranch bufferInv_shiftForward
      bufferInv_dropBuffer split: if_splits)

lemma bufferInv_branchId:
  "bufferInv st \<Longrightarrow> branchId c st = (ts, Inr st') \<Longrightarrow> bufferInv st'"
  by (auto simp: branchId_def Let_def bufferInv_setBranch bufferInv_shiftForward
      bufferInv_dropBuffer split: if_splits)

lemma bufferInv_branchString:
  "bufferInv st \<Longrightarrow> branchString c st = (ts, Inr st') \<Longrightarrow> bufferInv st'"
  by (auto simp: branchString_def Let_def bufferInv_setBranch bufferInv_shiftForward
      bufferInv_dropBuffer split: if_splits)

lemma bufferInv_branchWS:
  "bufferInv st \<Longrightarrow> branchWS c st = (ts, Inr st') \<Longrightarrow> bufferInv st'"
  by (auto simp: branchWS_def Let_def bufferInv_setBranch bufferInv_shiftForward
      bufferInv_dropBuffer split: if_splits)

lemma bufferInv_withBranch:
  "bufferInv st \<Longrightarrow> withBranch st c = (ts, Inr st') \<Longrightarrow> bufferInv st'"
  by (cases "branch st")
     (auto simp: withBranch_def
        dest: bufferInv_branchInit bufferInv_branchId bufferInv_branchString bufferInv_branchWS)

lemma bufferInv_loop:
  "bufferInv st \<Longrightarrow> loop st = (ts, Inr st') \<Longrightarrow> bufferInv st'"
proof (induction st arbitrary: ts rule: loop_steps_induct)
  case (step st)
  show ?case
  proof (cases "current st")
    case None
    with step.prems show ?thesis by (simp add: loop.simps)
  next
    case (Some c)
    obtain ts1 r1 where w: "withBranch st c = (ts1, r1)" by (cases "withBranch st c")
    show ?thesis
    proof (cases r1)
      case (Inl e)
      with Some w step.prems show ?thesis by (simp add: loop.simps)
    next
      case (Inr update)
      with w have w': "withBranch st c = (ts1, Inr update)" by simp
      obtain ts2 r2 where l: "loop update = (ts2, r2)" by (cases "loop update")
      with Some w' step.prems have "loop update = (ts2, Inr st')"
        by (simp add: loop_ok_step)
      moreover from step.prems(1) w' have "bufferInv update" by (rule bufferInv_withBranch)
      ultimately show ?thesis using step.IH [OF Some w'] by blast
    qed
  qed
qed

text \<open>
  C6. In every state reachable from the initial state by the operations of the state
  class, the branch functions and the driver, \<^verbatim>\<open>bufferEnd\<close> is \<^verbatim>\<open>bufferStart\<close> shifted once
  by each character of the buffer, in order; and each of these operations preserves
  that property of any state.
\<close>

theorem reachable_bufferInv:
  "(reachable st \<longrightarrow> bufferInv st) \<and>
   (bufferInv st \<longrightarrow>
      bufferInv (shiftForward st) \<and> bufferInv (dropBuffer st) \<and> bufferInv (setBranch b st) \<and>
      bufferInv (addInput st s) \<and>
      (\<forall>c ts st'. branchInit c st = (ts, Inr st') \<or> branchId c st = (ts, Inr st') \<or>
          branchString c st = (ts, Inr st') \<or> branchWS c st = (ts, Inr st') \<or>
          withBranch st c = (ts, Inr st') \<or> loop st = (ts, Inr st') \<longrightarrow> bufferInv st'))"
proof -
  have "bufferInv st" if "reachable st"
    using that
  proof induction
    case initial
    show ?case by (simp add: initialState_def bufferInv_create)
  qed (auto simp: withState_def
        intro: bufferInv_create bufferInv_addInput bufferInv_shiftForward bufferInv_dropBuffer
          bufferInv_setBranch bufferInv_branchInit bufferInv_branchId bufferInv_branchString
          bufferInv_branchWS bufferInv_withBranch bufferInv_loop)
  then have r: "reachable st \<longrightarrow> bufferInv st" by blast
  have p: "bufferInv (shiftForward st) \<and> bufferInv (dropBuffer st) \<and>
      bufferInv (setBranch b st) \<and> bufferInv (addInput st s)" if "bufferInv st"
    using that
    by (simp add: bufferInv_addInput bufferInv_shiftForward bufferInv_dropBuffer
        bufferInv_setBranch)
  have q: "bufferInv st'" if inv: "bufferInv st"
    and d: "branchInit c st = (ts, Inr st') \<or> branchId c st = (ts, Inr st') \<or>
          branchString c st = (ts, Inr st') \<or> branchWS c st = (ts, Inr st') \<or>
          withBranch st c = (ts, Inr st') \<or> loop st = (ts, Inr st')" for c ts st'
    using d bufferInv_branchInit [OF inv] bufferInv_branchId [OF inv]
      bufferInv_branchString [OF inv] bufferInv_branchWS [OF inv]
      bufferInv_withBranch [OF inv] bufferInv_loop [OF inv]
    by blast
  from r p q show ?thesis by blast
qed

theorem reachable_bufferInv_witness:
  "reachable (shiftForward (shiftForward (addInput initialState (withIterable ''a\<newline>b'')))) \<and>
   bufferInv (shiftForward (shiftForward (addInput initialState (withIterable ''a\<newline>b'')))) \<and>
   buffer (shiftForward (shiftForward (addInput initialState (withIterable ''a\<newline>b'')))) = ''a\<newline>'' \<and>
   bufStart (shiftForward (shiftForward (addInput initialState (withIterable ''a\<newline>b'')))) =
     \<lparr>line = 0, column = 0\<rparr> \<and>
   bufEnd (shiftForward (shiftForward (addInput initialState (withIterable ''a\<newline>b'')))) =
     \<lparr>line = 1, column = 0\<rparr>"
proof -
  have r: "reachable (shiftForward (shiftForward (addInput initialState (withIterable ''a\<newline>b''))))"
    by (intro reachable.shiftForward reachable.addInput reachable.initial)
  have "buffer (shiftForward (shiftForward (addInput initialState (withIterable ''a\<newline>b'')))) = ''a\<newline>'' \<and>
   bufStart (shiftForward (shiftForward (addInput initialState (withIterable ''a\<newline>b'')))) =
     \<lparr>line = 0, column = 0\<rparr> \<and>
   bufEnd (shiftForward (shiftForward (addInput initialState (withIterable ''a\<newline>b'')))) =
     \<lparr>line = 1, column = 0\<rparr>"
    by code_simp
  with r reachable_bufferInv [of "shiftForward (shiftForward (addInput initialState (withIterable ''a\<newline>b'')))"]
  show ?thesis by simp
qed

section \<open>Chunk boundaries\<close>

lemmas branch_defs =
  withBranch_def branchInit_def branchId_def branchString_def branchWS_def Let_def
  setBranch_def shiftForward_def dropBuffer_def location_def enqueued_def
  current_def Stream_current_def Stream_shiftForward_def addInput_def withIterable_def

lemma current_Some_iff: "current st = Some c \<longleftrightarrow> (\<exists>cs. remaining (stream st) = c # cs)"
  by (auto simp: current_def Stream_current_def split: list.splits)

lemma current_None_iff: "current st = None \<longleftrightarrow> remaining (stream st) = []"
  by (auto simp: current_def Stream_current_def split: list.splits)

lemma addInput_same: "addInput st (withIterable (remaining (stream st))) = st"
  by (simp add: addInput_def withIterable_def)

lemma withBranch_consumes:
  assumes "remaining (stream st) = c # cs" and "withBranch st c = (ts, Inr u)"
  shows "remaining (stream u) = cs \<or> remaining (stream u) = c # cs"
  using assms
  by (cases "branch st") (auto simp: branch_defs split: if_splits)

lemma withBranch_addInput:
  assumes "remaining (stream st) = c # cs"
  shows "withBranch (addInput st (withIterable (c # cs'))) c =
     (case withBranch st c of
        (ts, Inl e) \<Rightarrow> (ts, Inl e)
      | (ts, Inr u) \<Rightarrow>
          (ts, Inr (addInput u (withIterable (if remaining (stream u) = cs then cs' else c # cs')))))"
  using assms
  by (cases "branch st") (auto simp: branch_defs split: if_splits)


lemma loop_append:
  "remaining (stream st) = a @ b \<Longrightarrow>
   loop st =
     (case loop (addInput st (withIterable a)) of
        (ts, Inl e) \<Rightarrow> (ts, Inl e)
      | (ts, Inr st1) \<Rightarrow>
          (case loop (addInput st1 (withIterable b)) of (ts', r) \<Rightarrow> (ts @ ts', r)))"
proof (induction st arbitrary: a rule: loop_steps_induct)
  case (step st)
  show ?case
  proof (cases a)
    case Nil
    with step.prems have "addInput (addInput st (withIterable a)) (withIterable b) = st"
      using addInput_same [of st] by (simp add: addInput_def)
    moreover have "loop (addInput st (withIterable a)) = ([], Inr (addInput st (withIterable a)))"
      using Nil by (simp add: loop_exhausted current_addInput_empty)
    ultimately show ?thesis by (simp split: prod.splits)
  next
    case (Cons c a')
    with step.prems have rem: "remaining (stream st) = c # (a' @ b)" by simp
    then have cur: "current st = Some c" by (simp add: current_Some_iff)
    have cur': "current (addInput st (withIterable a)) = Some c"
      using Cons by (simp add: current_Some_iff addInput_def withIterable_def)
    obtain ts1 r1 where w: "withBranch st c = (ts1, r1)" by (cases "withBranch st c")
    show ?thesis
    proof (cases r1)
      case (Inl e)
      with w have "withBranch (addInput st (withIterable a)) c = (ts1, Inl e)"
        using withBranch_addInput [OF rem, of a'] Cons by simp
      with cur' have "loop (addInput st (withIterable a)) = (ts1, Inl e)"
        by (rule loop_error_step)
      moreover from cur w Inl have "loop st = (ts1, Inl e)"
        by (simp add: loop_error_step)
      ultimately show ?thesis by simp
    next
      case (Inr u)
      with w have w': "withBranch st c = (ts1, Inr u)" by simp
      define a'' where "a'' = (if remaining (stream u) = a' @ b then a' else c # a')"
      from withBranch_consumes [OF rem w'] have remu: "remaining (stream u) = a'' @ b"
        by (auto simp: a''_def)
      have "withBranch (addInput st (withIterable a)) c = (ts1, Inr (addInput u (withIterable a'')))"
        using withBranch_addInput [OF rem, of a'] Cons w' by (simp add: a''_def)
      with cur' have l1: "loop (addInput st (withIterable a)) =
          (case loop (addInput u (withIterable a'')) of (ts', r) \<Rightarrow> (ts1 @ ts', r))"
        by (rule loop_ok_step)
      from cur w' have l2: "loop st = (case loop u of (ts', r) \<Rightarrow> (ts1 @ ts', r))"
        by (rule loop_ok_step)
      from step.IH [OF cur w' remu] l1 l2 show ?thesis
        by (simp split: prod.splits sum.splits)
    qed
  qed
qed

lemma withState_append:
  "withState st (withIterable (a @ b)) =
     (case withState st (withIterable a) of
        (ts, Inl e) \<Rightarrow> (ts, Inl e)
      | (ts, Inr st1) \<Rightarrow>
          (case withState st1 (withIterable b) of (ts', r) \<Rightarrow> (ts @ ts', r)))"
proof -
  have "remaining (stream (addInput st (withIterable (a @ b)))) = a @ b"
    by (simp add: addInput_def withIterable_def)
  moreover have "addInput (addInput st (withIterable (a @ b))) (withIterable a) =
      addInput st (withIterable a)"
    by (simp add: addInput_def)
  ultimately show ?thesis
    unfolding withState_def using loop_append [of "addInput st (withIterable (a @ b))" a b]
    by simp
qed

lemma chunkSource_Cons:
  "chunkSource (c # cs) = \<lparr>isDone = False, chunk = Some c\<rparr> # chunkSource cs"
  by (simp add: chunkSource_def)

lemma asyncLoop_chunkSource:
  "asyncLoop st (chunkSource cs) = finished (withState st (withIterable (concat cs)))"
proof (induction cs arbitrary: st)
  case Nil
  show ?case
    by (simp add: chunkSource_def finished_def withState_def loop_exhausted
        current_addInput_empty)
next
  case (Cons c cs)
  have "asyncLoop st (chunkSource (c # cs)) =
      (case withState st (withIterable c) of
         (ts, Inl e) \<Rightarrow> (ts, Some e)
       | (ts, Inr update) \<Rightarrow>
           (case asyncLoop update (chunkSource cs) of (ts', r') \<Rightarrow> (ts @ ts', r')))"
    by (simp add: chunkSource_Cons)
  also have "\<dots> = finished (withState st (withIterable (c @ concat cs)))"
    by (simp add: Cons.IH withState_append [of st c "concat cs"] finished_def
        split: prod.splits sum.splits)
  finally show ?case by simp
qed

text \<open>
  C1. For every finite list of chunks, the scheduler run on the source that delivers the
  chunks one at a time and then completes yields the same tokens, with the same
  payloads and locations in the same order, and ends the same way (completion or the
  same error) as on the source that delivers their concatenation as a single chunk.
\<close>

theorem chunk_boundary_transparency:
  "tokenStream (chunkSource cs) = tokenStream (chunkSource [concat cs])"
  by (simp add: tokenStream_def asyncLoop_chunkSource)


section \<open>Terminators\<close>

lemma branchId_terminator:
  assumes "current st = Some c" and "branch st = BranchId" and "\<not> isIdChar c"
  shows "withBranch st c =
      ([IdentifierLexicon (buffer st) (location st)], Inr (setBranch BranchInit (dropBuffer st)))"
    and "stream (setBranch BranchInit (dropBuffer st)) = stream st"
    and "current (setBranch BranchInit (dropBuffer st)) = Some c"
    and "withBranch (setBranch BranchInit (dropBuffer st)) c =
      branchInit c (setBranch BranchInit (dropBuffer st))"
    and "loop st =
      (case loop (setBranch BranchInit (dropBuffer st)) of
         (ts, r) \<Rightarrow> (IdentifierLexicon (buffer st) (location st) # ts, r))"
proof -
  show w: "withBranch st c =
      ([IdentifierLexicon (buffer st) (location st)], Inr (setBranch BranchInit (dropBuffer st)))"
    using assms by (simp add: withBranch_def branchId_def enqueued_def)
  show "stream (setBranch BranchInit (dropBuffer st)) = stream st"
    by (simp add: setBranch_def dropBuffer_def)
  then show "current (setBranch BranchInit (dropBuffer st)) = Some c"
    using assms(1) by (simp add: current_def)
  show "withBranch (setBranch BranchInit (dropBuffer st)) c =
      branchInit c (setBranch BranchInit (dropBuffer st))"
    by (simp add: withBranch_def setBranch_def)
  from loop_ok_step [OF assms(1) w] show "loop st =
      (case loop (setBranch BranchInit (dropBuffer st)) of
         (ts, r) \<Rightarrow> (IdentifierLexicon (buffer st) (location st) # ts, r))"
    by simp
qed

lemma branchWS_terminator:
  assumes "current st = Some c" and "branch st = BranchWS" and "\<not> isWhitespace c"
  shows "withBranch st c =
      ([WhiteSpaceLexicon (length (buffer st)) (location st)],
       Inr (setBranch BranchInit (dropBuffer st)))"
    and "loop st =
      (case loop (setBranch BranchInit (dropBuffer st)) of
         (ts, r) \<Rightarrow> (WhiteSpaceLexicon (length (buffer st)) (location st) # ts, r))"
proof -
  show w: "withBranch st c =
      ([WhiteSpaceLexicon (length (buffer st)) (location st)],
       Inr (setBranch BranchInit (dropBuffer st)))"
    using assms by (simp add: withBranch_def branchWS_def enqueued_def)
  from loop_ok_step [OF assms(1) w] show "loop st =
      (case loop (setBranch BranchInit (dropBuffer st)) of
         (ts, r) \<Rightarrow> (WhiteSpaceLexicon (length (buffer st)) (location st) # ts, r))"
    by simp
qed

lemma branchString_terminator:
  assumes "current st = Some c" and "branch st = BranchString" and \<open>c = CHR ''"''\<close>
  shows "withBranch st c =
      ([StringLexicon (buffer st) (Location_create (bufStart st) (shiftWith (bufEnd st) c))],
       Inr (setBranch BranchInit (dropBuffer (shiftForward st))))"
    and "remaining (stream st) =
      c # remaining (stream (setBranch BranchInit (dropBuffer (shiftForward st))))"
    and "branch (setBranch BranchInit (dropBuffer (shiftForward st))) = BranchInit"
  using assms by (auto simp: branch_defs split: list.splits)

lemma Stream_eq_iff: "s = t \<longleftrightarrow> remaining s = remaining t" for s t :: Stream
  by auto

lemma withBranch_unconsumed_iff:
  assumes "current st = Some c" and "withBranch st c = (ts, Inr st')"
  shows "stream st' = stream st \<longleftrightarrow>
      branch st = BranchInit \<and> isWhitespace c \<or> branch st = BranchId \<and> \<not> isIdChar c \<or>
      branch st = BranchWS \<and> \<not> isWhitespace c"
  using assms
  by (cases "branch st") (auto simp: branch_defs Stream_eq_iff split: if_splits list.splits)

lemma withBranch_consumed:
  assumes "current st = Some c" and "withBranch st c = (ts, Inr st')"
  shows "stream st' = stream st \<or> remaining (stream st) = c # remaining (stream st')"
  using assms
  by (cases "branch st") (auto simp: branch_defs split: if_splits list.splits)

lemma withBranch_bufEnd:
  assumes "current st = Some c" and "withBranch st c = (ts, Inr st')"
  shows "stream st' = stream st \<and> bufEnd st' = bufEnd st \<or>
     remaining (stream st) = c # remaining (stream st') \<and> bufEnd st' = shiftWith (bufEnd st) c"
  using assms
  by (cases "branch st") (auto simp: branch_defs split: if_splits list.splits)

lemma loop_consumes_all:
  "loop st = (ts, Inr st') \<Longrightarrow>
   remaining (stream st') = [] \<and> bufEnd st' = foldl shiftWith (bufEnd st) (remaining (stream st))"
proof (induction st arbitrary: ts rule: loop_steps_induct)
  case (step st)
  show ?case
  proof (cases "current st")
    case None
    with step.prems show ?thesis by (auto simp: loop.simps current_None_iff)
  next
    case (Some c)
    obtain ts1 r1 where w: "withBranch st c = (ts1, r1)" by (cases "withBranch st c")
    show ?thesis
    proof (cases r1)
      case (Inl e)
      with Some w step.prems show ?thesis by (simp add: loop.simps)
    next
      case (Inr update)
      with w have w': "withBranch st c = (ts1, Inr update)" by simp
      obtain ts2 r2 where l: "loop update = (ts2, r2)" by (cases "loop update")
      with Some w' step.prems have "loop update = (ts2, Inr st')"
        by (simp add: loop_ok_step)
      from step.IH [OF Some w' this] withBranch_bufEnd [OF Some w'] show ?thesis
        by auto
    qed
  qed
qed

lemma withBranch_keep_or_shift:
  assumes "current st = Some c" and "withBranch st c = (ts, Inr st')"
  shows "stream st' = stream st \<or> stream st' = Stream_shiftForward (stream st)"
  using assms
  by (cases "branch st") (auto simp: branch_defs split: if_splits list.splits)

lemma run_consumed:
  "run st ts cs st' \<Longrightarrow> remaining (stream st) = cs @ remaining (stream st')"
proof (induction rule: run.induct)
  case (consume st c ts u ts' cs st')
  then show ?case
    by (auto simp: current_def Stream_current_def Stream_shiftForward_def split: list.splits)
qed simp_all

lemma run_loop:
  "run st ts cs st' \<Longrightarrow> current st' = None \<Longrightarrow> loop st = (ts, Inr st')"
proof (induction rule: run.induct)
  case (stop st)
  then show ?case by (simp add: loop_exhausted)
next
  case (keep st c ts u ts' cs st')
  then show ?case by (simp add: loop_ok_step)
next
  case (consume st c ts u ts' cs st')
  then show ?case by (simp add: loop_ok_step)
qed

lemma loop_run:
  "loop st = (ts, Inr st') \<Longrightarrow> \<exists>cs. run st ts cs st' \<and> current st' = None"
proof (induction st arbitrary: ts rule: loop_steps_induct)
  case (step st)
  show ?case
  proof (cases "current st")
    case None
    with step.prems have "ts = []" "st' = st" by (simp_all add: loop.simps)
    with None show ?thesis using run.stop by blast
  next
    case (Some c)
    obtain ts1 r1 where w: "withBranch st c = (ts1, r1)" by (cases "withBranch st c")
    show ?thesis
    proof (cases r1)
      case (Inl e)
      with Some w step.prems show ?thesis by (simp add: loop.simps)
    next
      case (Inr update)
      with w have w': "withBranch st c = (ts1, Inr update)" by simp
      obtain ts2 r2 where l: "loop update = (ts2, r2)" by (cases "loop update")
      with Some w' step.prems have l': "loop update = (ts2, Inr st')" and ts: "ts = ts1 @ ts2"
        by (simp_all add: loop_ok_step)
      from step.IH [OF Some w' l'] obtain cs where r: "run update ts2 cs st'"
        and n: "current st' = None" by blast
      from withBranch_keep_or_shift [OF Some w'] show ?thesis
      proof
        assume "stream update = stream st"
        from run.keep [OF Some w' this r] ts n show ?thesis by blast
      next
        assume "stream update = Stream_shiftForward (stream st)"
        from run.consume [OF Some w' this r] ts n show ?thesis by blast
      qed
    qed
  qed
qed

lemma loop_run_iff:
  "loop st = (ts, Inr st') \<longleftrightarrow> (\<exists>cs. run st ts cs st' \<and> current st' = None)"
  using loop_run run_loop by blast

lemma loop_run_input:
  "loop st = (ts, Inr st') \<Longrightarrow> run st ts (remaining (stream st)) st'"
proof -
  assume "loop st = (ts, Inr st')"
  then obtain cs where r: "run st ts cs st'" and n: "current st' = None"
    using loop_run by blast
  from run_consumed [OF r] n have "remaining (stream st) = cs"
    by (simp add: current_None_iff)
  with r show ?thesis by simp
qed

lemma terminator_dispatches:
  \<open>(current st = Some c \<and> branch st = BranchId \<and> \<not> isIdChar c \<longrightarrow>
      withBranch st c =
        ([IdentifierLexicon (buffer st) (location st)],
         Inr (setBranch BranchInit (dropBuffer st))) \<and>
      stream (setBranch BranchInit (dropBuffer st)) = stream st \<and>
      current (setBranch BranchInit (dropBuffer st)) = Some c \<and>
      withBranch (setBranch BranchInit (dropBuffer st)) c =
        branchInit c (setBranch BranchInit (dropBuffer st)) \<and>
      loop st =
        (case loop (setBranch BranchInit (dropBuffer st)) of
           (ts, r) \<Rightarrow> (IdentifierLexicon (buffer st) (location st) # ts, r))) \<and>
   (current st = Some c \<and> branch st = BranchWS \<and> \<not> isWhitespace c \<longrightarrow>
      withBranch st c =
        ([WhiteSpaceLexicon (length (buffer st)) (location st)],
         Inr (setBranch BranchInit (dropBuffer st))) \<and>
      stream (setBranch BranchInit (dropBuffer st)) = stream st \<and>
      current (setBranch BranchInit (dropBuffer st)) = Some c \<and>
      withBranch (setBranch BranchInit (dropBuffer st)) c =
        branchInit c (setBranch BranchInit (dropBuffer st)) \<and>
      loop st =
        (case loop (setBranch BranchInit (dropBuffer st)) of
           (ts, r) \<Rightarrow> (WhiteSpaceLexicon (length (buffer st)) (location st) # ts, r))) \<and>
   (current st = Some c \<and> branch st = BranchString \<and> c = CHR ''"'' \<longrightarrow>
      withBranch st c =
        ([StringLexicon (buffer st) (Location_create (bufStart st) (shiftWith (bufEnd st) c))],
         Inr (setBranch BranchInit (dropBuffer (shiftForward st)))) \<and>
      remaining (stream st) =
        c # remaining (stream (setBranch BranchInit (dropBuffer (shiftForward st))))) \<and>
   (current st = Some c \<and> withBranch st c = (ts, Inr st') \<longrightarrow>
      (stream st' = stream st \<and> bufEnd st' = bufEnd st \<or>
       remaining (stream st) = c # remaining (stream st') \<and>
       bufEnd st' = shiftWith (bufEnd st) c) \<and>
      (stream st' = stream st \<longleftrightarrow>
         branch st = BranchInit \<and> isWhitespace c \<or> branch st = BranchId \<and> \<not> isIdChar c \<or>
         branch st = BranchWS \<and> \<not> isWhitespace c)) \<and>
   (loop st = (ts, Inr st') \<longrightarrow>
      remaining (stream st') = [] \<and>
      bufEnd st' = foldl shiftWith (bufEnd st) (remaining (stream st)))\<close>
proof (intro conjI impI; (elim conjE)?)
  assume a: "current st = Some c" "branch st = BranchId" "\<not> isIdChar c"
  show "withBranch st c =
        ([IdentifierLexicon (buffer st) (location st)],
         Inr (setBranch BranchInit (dropBuffer st)))"
    by (rule branchId_terminator(1) [OF a])
  show "loop st =
        (case loop (setBranch BranchInit (dropBuffer st)) of
           (ts, r) \<Rightarrow> (IdentifierLexicon (buffer st) (location st) # ts, r))"
    by (rule branchId_terminator(5) [OF a])
next
  assume a: "current st = Some c" "branch st = BranchWS" "\<not> isWhitespace c"
  show "withBranch st c =
        ([WhiteSpaceLexicon (length (buffer st)) (location st)],
         Inr (setBranch BranchInit (dropBuffer st)))"
    by (rule branchWS_terminator(1) [OF a])
  show "loop st =
        (case loop (setBranch BranchInit (dropBuffer st)) of
           (ts, r) \<Rightarrow> (WhiteSpaceLexicon (length (buffer st)) (location st) # ts, r))"
    by (rule branchWS_terminator(2) [OF a])
next
  assume a: "current st = Some c" "branch st = BranchString" \<open>c = CHR ''"''\<close>
  show "withBranch st c =
        ([StringLexicon (buffer st) (Location_create (bufStart st) (shiftWith (bufEnd st) c))],
         Inr (setBranch BranchInit (dropBuffer (shiftForward st))))"
    by (rule branchString_terminator(1) [OF a])
  show "remaining (stream st) =
        c # remaining (stream (setBranch BranchInit (dropBuffer (shiftForward st))))"
    by (rule branchString_terminator(2) [OF a])
next
  assume a: "current st = Some c" "withBranch st c = (ts, Inr st')"
  show "stream st' = stream st \<and> bufEnd st' = bufEnd st \<or>
       remaining (stream st) = c # remaining (stream st') \<and>
       bufEnd st' = shiftWith (bufEnd st) c"
    by (rule withBranch_bufEnd [OF a])
  show "stream st' = stream st \<longleftrightarrow>
         branch st = BranchInit \<and> isWhitespace c \<or> branch st = BranchId \<and> \<not> isIdChar c \<or>
         branch st = BranchWS \<and> \<not> isWhitespace c"
    by (rule withBranch_unconsumed_iff [OF a])
next
  assume a: "loop st = (ts, Inr st')"
  from loop_consumes_all [OF a] show "remaining (stream st') = []"
    and "bufEnd st' = foldl shiftWith (bufEnd st) (remaining (stream st))"
    by simp_all
qed (simp_all add: setBranch_def dropBuffer_def current_def withBranch_def)

text \<open>
  C7. When the Identifier or the Whitespace branch emits its token, it returns a state
  with the same cursor, so the terminating character is still the current one, and the
  driver loop dispatches it next, unchanged, to the Init branch. The String branch
  consumes the closing quote, and the location of its token ends just past it. Every
  dispatch either leaves the cursor where it is or moves it past the dispatched
  character alone, shifting the end position by that character; the dispatches that
  leave it are Init on whitespace and the ends of an identifier or of a whitespace run.
  After any dispatch that returns a state the driver loop goes on from that state. The
  driver loop returns exactly when the chain of dispatches from its state reaches an
  exhausted cursor, with the tokens of that chain; and the characters consumed along
  the chain, one by each consuming dispatch, are the characters of the input, each once
  and in order, so that none is dropped and none is consumed twice. Such a run has
  shifted the end position once by each character of the input.
\<close>

theorem terminator_handling:
  \<open>((current st = Some c \<and> branch st = BranchId \<and> \<not> isIdChar c \<longrightarrow>
      withBranch st c =
        ([IdentifierLexicon (buffer st) (location st)],
         Inr (setBranch BranchInit (dropBuffer st))) \<and>
      stream (setBranch BranchInit (dropBuffer st)) = stream st \<and>
      current (setBranch BranchInit (dropBuffer st)) = Some c \<and>
      withBranch (setBranch BranchInit (dropBuffer st)) c =
        branchInit c (setBranch BranchInit (dropBuffer st)) \<and>
      loop st =
        (case loop (setBranch BranchInit (dropBuffer st)) of
           (ts, r) \<Rightarrow> (IdentifierLexicon (buffer st) (location st) # ts, r))) \<and>
   (current st = Some c \<and> branch st = BranchWS \<and> \<not> isWhitespace c \<longrightarrow>
      withBranch st c =
        ([WhiteSpaceLexicon (length (buffer st)) (location st)],
         Inr (setBranch BranchInit (dropBuffer st))) \<and>
      stream (setBranch BranchInit (dropBuffer st)) = stream st \<and>
      current (setBranch BranchInit (dropBuffer st)) = Some c \<and>
      withBranch (setBranch BranchInit (dropBuffer st)) c =
        branchInit c (setBranch BranchInit (dropBuffer st)) \<and>
      loop st =
        (case loop (setBranch BranchInit (dropBuffer st)) of
           (ts, r) \<Rightarrow> (WhiteSpaceLexicon (length (buffer st)) (location st) # ts, r))) \<and>
   (current st = Some c \<and> branch st = BranchString \<and> c = CHR ''"'' \<longrightarrow>
      withBranch st c =
        ([StringLexicon (buffer st) (Location_create (bufStart st) (shiftWith (bufEnd st) c))],
         Inr (setBranch BranchInit (dropBuffer (shiftForward st)))) \<and>
      remaining (stream st) =
        c # remaining (stream (setBranch BranchInit (dropBuffer (shiftForward st))))) \<and>
   (current st = Some c \<and> withBranch st c = (ts, Inr st') \<longrightarrow>
      (stream st' = stream st \<and> bufEnd st' = bufEnd st \<or>
       remaining (stream st) = c # remaining (stream st') \<and>
       bufEnd st' = shiftWith (bufEnd st) c) \<and>
      (stream st' = stream st \<longleftrightarrow>
         branch st = BranchInit \<and> isWhitespace c \<or> branch st = BranchId \<and> \<not> isIdChar c \<or>
         branch st = BranchWS \<and> \<not> isWhitespace c)) \<and>
   (loop st = (ts, Inr st') \<longrightarrow>
      remaining (stream st') = [] \<and>
      bufEnd st' = foldl shiftWith (bufEnd st) (remaining (stream st)))) \<and>
   (current st = Some c \<and> withBranch st c = (ts, Inr st') \<longrightarrow>
      loop st = (case loop st' of (ts', r) \<Rightarrow> (ts @ ts', r))) \<and>
   (loop st = (ts, Inr st') \<longleftrightarrow> (\<exists>cs. run st ts cs st' \<and> current st' = None)) \<and>
   (run st ts cs st' \<longrightarrow> remaining (stream st) = cs @ remaining (stream st')) \<and>
   (loop st = (ts, Inr st') \<longrightarrow> run st ts (remaining (stream st)) st')\<close>
proof -
  have a: "current st = Some c \<and> withBranch st c = (ts, Inr st') \<longrightarrow>
      loop st = (case loop st' of (ts', r) \<Rightarrow> (ts @ ts', r))"
    using loop_ok_step by blast
  have b: "loop st = (ts, Inr st') \<longleftrightarrow> (\<exists>cs. run st ts cs st' \<and> current st' = None)"
    by (rule loop_run_iff)
  have c: "run st ts cs st' \<longrightarrow> remaining (stream st) = cs @ remaining (stream st')"
    using run_consumed by blast
  have d: "loop st = (ts, Inr st') \<longrightarrow> run st ts (remaining (stream st)) st'"
    using loop_run_input by blast
  from a b c d have "(current st = Some c \<and> withBranch st c = (ts, Inr st') \<longrightarrow>
      loop st = (case loop st' of (ts', r) \<Rightarrow> (ts @ ts', r))) \<and>
   (loop st = (ts, Inr st') \<longleftrightarrow> (\<exists>cs. run st ts cs st' \<and> current st' = None)) \<and>
   (run st ts cs st' \<longrightarrow> remaining (stream st) = cs @ remaining (stream st')) \<and>
   (loop st = (ts, Inr st') \<longrightarrow> run st ts (remaining (stream st)) st')"
    by (intro conjI)
  with terminator_dispatches [of st c ts st'] show ?thesis
    by (rule conjI)
qed

theorem terminator_handling_witness:
  \<open>current \<lparr>stream = withIterable '')'', branch = BranchId, buffer = ''ab'',
       bufStart = \<lparr>line = 0, column = 0\<rparr>, bufEnd = \<lparr>line = 0, column = 2\<rparr>\<rparr> = Some CHR '')'' \<and>
   \<not> isIdChar CHR '')'' \<and>
   loop \<lparr>stream = withIterable '')'', branch = BranchId, buffer = ''ab'',
       bufStart = \<lparr>line = 0, column = 0\<rparr>, bufEnd = \<lparr>line = 0, column = 2\<rparr>\<rparr> =
     ([IdentifierLexicon ''ab''
         \<lparr>start = \<lparr>line = 0, column = 0\<rparr>, finish = \<lparr>line = 0, column = 2\<rparr>\<rparr>,
       RParenLexicon
         \<lparr>start = \<lparr>line = 0, column = 2\<rparr>, finish = \<lparr>line = 0, column = 3\<rparr>\<rparr>],
      Inr \<lparr>stream = withIterable [], branch = BranchInit, buffer = [],
         bufStart = \<lparr>line = 0, column = 3\<rparr>, bufEnd = \<lparr>line = 0, column = 3\<rparr>\<rparr>) \<and>
   current \<lparr>stream = withIterable ''x'', branch = BranchWS, buffer = ''  '',
       bufStart = \<lparr>line = 0, column = 0\<rparr>, bufEnd = \<lparr>line = 0, column = 2\<rparr>\<rparr> = Some CHR ''x'' \<and>
   \<not> isWhitespace CHR ''x'' \<and>
   loop \<lparr>stream = withIterable ''x'', branch = BranchWS, buffer = ''  '',
       bufStart = \<lparr>line = 0, column = 0\<rparr>, bufEnd = \<lparr>line = 0, column = 2\<rparr>\<rparr> =
     ([WhiteSpaceLexicon 2
         \<lparr>start = \<lparr>line = 0, column = 0\<rparr>, finish = \<lparr>line = 0, column = 2\<rparr>\<rparr>],
      Inr \<lparr>stream = withIterable [], branch = BranchId, buffer = ''x'',
         bufStart = \<lparr>line = 0, column = 2\<rparr>, bufEnd = \<lparr>line = 0, column = 3\<rparr>\<rparr>) \<and>
   current \<lparr>stream = withIterable ''"z'', branch = BranchString, buffer = ''hi'',
       bufStart = \<lparr>line = 0, column = 1\<rparr>, bufEnd = \<lparr>line = 0, column = 3\<rparr>\<rparr> = Some CHR ''"'' \<and>
   withBranch \<lparr>stream = withIterable ''"z'', branch = BranchString, buffer = ''hi'',
       bufStart = \<lparr>line = 0, column = 1\<rparr>, bufEnd = \<lparr>line = 0, column = 3\<rparr>\<rparr> CHR ''"'' =
     ([StringLexicon ''hi''
         \<lparr>start = \<lparr>line = 0, column = 1\<rparr>, finish = \<lparr>line = 0, column = 4\<rparr>\<rparr>],
      Inr \<lparr>stream = withIterable ''z'', branch = BranchInit, buffer = [],
         bufStart = \<lparr>line = 0, column = 4\<rparr>, bufEnd = \<lparr>line = 0, column = 4\<rparr>\<rparr>) \<and>
   loop (addInput initialState (withIterable ''a b'')) =
     ([IdentifierLexicon ''a''
         \<lparr>start = \<lparr>line = 0, column = 0\<rparr>, finish = \<lparr>line = 0, column = 1\<rparr>\<rparr>,
       WhiteSpaceLexicon 1
         \<lparr>start = \<lparr>line = 0, column = 1\<rparr>, finish = \<lparr>line = 0, column = 2\<rparr>\<rparr>],
      Inr \<lparr>stream = withIterable [], branch = BranchId, buffer = ''b'',
         bufStart = \<lparr>line = 0, column = 2\<rparr>, bufEnd = \<lparr>line = 0, column = 3\<rparr>\<rparr>) \<and>
   bufEnd \<lparr>stream = withIterable [], branch = BranchId, buffer = ''b'',
         bufStart = \<lparr>line = 0, column = 2\<rparr>, bufEnd = \<lparr>line = 0, column = 3\<rparr>\<rparr> =
     foldl shiftWith (bufEnd initialState) ''a b'' \<and>
   run (addInput initialState (withIterable ''a b''))
     [IdentifierLexicon ''a''
         \<lparr>start = \<lparr>line = 0, column = 0\<rparr>, finish = \<lparr>line = 0, column = 1\<rparr>\<rparr>,
       WhiteSpaceLexicon 1
         \<lparr>start = \<lparr>line = 0, column = 1\<rparr>, finish = \<lparr>line = 0, column = 2\<rparr>\<rparr>]
     ''a b''
     \<lparr>stream = withIterable [], branch = BranchId, buffer = ''b'',
         bufStart = \<lparr>line = 0, column = 2\<rparr>, bufEnd = \<lparr>line = 0, column = 3\<rparr>\<rparr>\<close>
proof -
  let ?sId = "\<lparr>stream = withIterable '')'', branch = BranchId, buffer = ''ab'',
       bufStart = \<lparr>line = 0, column = 0\<rparr>, bufEnd = \<lparr>line = 0, column = 2\<rparr>\<rparr>"
  let ?sWS = "\<lparr>stream = withIterable ''x'', branch = BranchWS, buffer = ''  '',
       bufStart = \<lparr>line = 0, column = 0\<rparr>, bufEnd = \<lparr>line = 0, column = 2\<rparr>\<rparr>"
  let ?sStr = \<open>\<lparr>stream = withIterable ''"z'', branch = BranchString, buffer = ''hi'',
       bufStart = \<lparr>line = 0, column = 1\<rparr>, bufEnd = \<lparr>line = 0, column = 3\<rparr>\<rparr>\<close>
  let ?s0 = "addInput initialState (withIterable ''a b'')"
  let ?ts0 = "[IdentifierLexicon ''a''
         \<lparr>start = \<lparr>line = 0, column = 0\<rparr>, finish = \<lparr>line = 0, column = 1\<rparr>\<rparr>,
       WhiteSpaceLexicon 1
         \<lparr>start = \<lparr>line = 0, column = 1\<rparr>, finish = \<lparr>line = 0, column = 2\<rparr>\<rparr>]"
  let ?s1 = "\<lparr>stream = withIterable [], branch = BranchId, buffer = ''b'',
         bufStart = \<lparr>line = 0, column = 2\<rparr>, bufEnd = \<lparr>line = 0, column = 3\<rparr>\<rparr>"
  have hId: "current ?sId = Some CHR '')'' \<and> branch ?sId = BranchId \<and> \<not> isIdChar CHR '')''"
    by (simp add: current_def Stream_current_def withIterable_def isIdChar_def less_eq_char_def)
  have hWS: "current ?sWS = Some CHR ''x'' \<and> branch ?sWS = BranchWS \<and> \<not> isWhitespace CHR ''x''"
    by (simp add: current_def Stream_current_def withIterable_def isWhitespace_def)
  have hStr: \<open>current ?sStr = Some CHR ''"'' \<and> branch ?sStr = BranchString\<close>
    by (simp add: current_def Stream_current_def withIterable_def)
  have h0: "loop ?s0 = (?ts0, Inr ?s1)"
    by code_simp
  have iId: "loop \<lparr>stream = withIterable '')'', branch = BranchInit, buffer = [],
         bufStart = \<lparr>line = 0, column = 2\<rparr>, bufEnd = \<lparr>line = 0, column = 2\<rparr>\<rparr> =
     ([RParenLexicon
         \<lparr>start = \<lparr>line = 0, column = 2\<rparr>, finish = \<lparr>line = 0, column = 3\<rparr>\<rparr>],
      Inr \<lparr>stream = withIterable [], branch = BranchInit, buffer = [],
         bufStart = \<lparr>line = 0, column = 3\<rparr>, bufEnd = \<lparr>line = 0, column = 3\<rparr>\<rparr>)"
    by code_simp
  have iWS: "loop \<lparr>stream = withIterable ''x'', branch = BranchInit, buffer = [],
         bufStart = \<lparr>line = 0, column = 2\<rparr>, bufEnd = \<lparr>line = 0, column = 2\<rparr>\<rparr> =
     ([],
      Inr \<lparr>stream = withIterable [], branch = BranchId, buffer = ''x'',
         bufStart = \<lparr>line = 0, column = 2\<rparr>, bufEnd = \<lparr>line = 0, column = 3\<rparr>\<rparr>)"
    by code_simp
  from hId terminator_handling [of ?sId "CHR '')''"]
  have cId: "loop ?sId =
        (case loop (setBranch BranchInit (dropBuffer ?sId)) of
           (ts, r) \<Rightarrow> (IdentifierLexicon (buffer ?sId) (location ?sId) # ts, r))"
    by blast
  from hWS terminator_handling [of ?sWS "CHR ''x''"]
  have cWS: "loop ?sWS =
        (case loop (setBranch BranchInit (dropBuffer ?sWS)) of
           (ts, r) \<Rightarrow> (WhiteSpaceLexicon (length (buffer ?sWS)) (location ?sWS) # ts, r))"
    by blast
  from hStr terminator_handling [of ?sStr \<open>CHR ''"''\<close>]
  have cStr: \<open>withBranch ?sStr CHR ''"'' =
        ([StringLexicon (buffer ?sStr)
            (Location_create (bufStart ?sStr) (shiftWith (bufEnd ?sStr) CHR ''"''))],
         Inr (setBranch BranchInit (dropBuffer (shiftForward ?sStr))))\<close>
    by blast
  from h0 terminator_handling [of ?s0 _ ?ts0 ?s1]
  have c0: "bufEnd ?s1 = foldl shiftWith (bufEnd ?s0) (remaining (stream ?s0))"
    by blast
  from h0 terminator_handling [of ?s0 _ ?ts0 ?s1]
  have r0: "run ?s0 ?ts0 (remaining (stream ?s0)) ?s1"
    by blast
  have "run ?s0 ?ts0 ''a b'' ?s1"
    using r0 by (simp add: addInput_def withIterable_def)
  moreover have "bufEnd ?s1 = foldl shiftWith (bufEnd initialState) ''a b''"
    using c0 by (simp add: addInput_def withIterable_def)
  moreover have "loop ?sId =
     ([IdentifierLexicon ''ab''
         \<lparr>start = \<lparr>line = 0, column = 0\<rparr>, finish = \<lparr>line = 0, column = 2\<rparr>\<rparr>,
       RParenLexicon
         \<lparr>start = \<lparr>line = 0, column = 2\<rparr>, finish = \<lparr>line = 0, column = 3\<rparr>\<rparr>],
      Inr \<lparr>stream = withIterable [], branch = BranchInit, buffer = [],
         bufStart = \<lparr>line = 0, column = 3\<rparr>, bufEnd = \<lparr>line = 0, column = 3\<rparr>\<rparr>)"
    using cId iId by (simp add: setBranch_def dropBuffer_def location_def Location_create_def)
  moreover have "loop ?sWS =
     ([WhiteSpaceLexicon 2
         \<lparr>start = \<lparr>line = 0, column = 0\<rparr>, finish = \<lparr>line = 0, column = 2\<rparr>\<rparr>],
      Inr \<lparr>stream = withIterable [], branch = BranchId, buffer = ''x'',
         bufStart = \<lparr>line = 0, column = 2\<rparr>, bufEnd = \<lparr>line = 0, column = 3\<rparr>\<rparr>)"
    using cWS iWS by (simp add: setBranch_def dropBuffer_def location_def Location_create_def)
  moreover have \<open>withBranch ?sStr CHR ''"'' =
     ([StringLexicon ''hi''
         \<lparr>start = \<lparr>line = 0, column = 1\<rparr>, finish = \<lparr>line = 0, column = 4\<rparr>\<rparr>],
      Inr \<lparr>stream = withIterable ''z'', branch = BranchInit, buffer = [],
         bufStart = \<lparr>line = 0, column = 4\<rparr>, bufEnd = \<lparr>line = 0, column = 4\<rparr>\<rparr>)\<close>
    using cStr
    by (simp add: setBranch_def dropBuffer_def shiftForward_def Location_create_def
        shiftWith_def current_def Stream_current_def Stream_shiftForward_def withIterable_def)
  ultimately show ?thesis
    using hId hWS hStr h0 by simp
qed

section \<open>Round trip\<close>

lemma pos_less_shiftWith: "pos_less p (shiftWith p c)"
  by (simp add: pos_less_def shiftWith_def)

lemma pos_less_trans: "pos_less p q \<Longrightarrow> pos_less q r \<Longrightarrow> pos_less p r"
  by (auto simp: pos_less_def)

lemma pos_less_foldl: "pos_less p (foldl shiftWith (shiftWith p c) xs)"
proof (induction xs arbitrary: p c)
  case Nil
  show ?case by (simp add: pos_less_shiftWith)
next
  case (Cons x xs)
  have "pos_less p (shiftWith p c)" by (rule pos_less_shiftWith)
  moreover have "pos_less (shiftWith p c) (foldl shiftWith (shiftWith (shiftWith p c) x) xs)"
    by (rule Cons.IH)
  ultimately show ?case by (simp add: pos_less_trans)
qed

lemma pos_less_neq: "pos_less p q \<Longrightarrow> p \<noteq> q"
  by (auto simp: pos_less_def)

lemma offsetOf_same: "offsetOf p p ys = Some 0"
  by (cases ys) simp_all

lemma offsetOf_prefix: "offsetOf (foldl shiftWith p xs) p (xs @ ys) = Some (length xs)"
proof (induction xs arbitrary: p)
  case Nil
  show ?case by (simp add: offsetOf_same)
next
  case (Cons c xs)
  have "p \<noteq> foldl shiftWith (shiftWith p c) xs"
    using pos_less_foldl [of p c xs] by (rule pos_less_neq)
  with Cons.IH [of "shiftWith p c"] show ?case by simp
qed

lemma span_middle:
  assumes "text = x @ y @ z" and "a = posAt x" and "b = posAt (x @ y)"
  shows "span text \<lparr>start = a, finish = b\<rparr> = y"
proof -
  have "offsetOf a Position_init text = Some (length x)"
    using offsetOf_prefix [of Position_init x "y @ z"] assms by (simp add: posAt_def)
  moreover have "offsetOf b Position_init text = Some (length x + length y)"
    using offsetOf_prefix [of Position_init "x @ y" z] assms by (simp add: posAt_def)
  ultimately show ?thesis
    using assms(1) by (simp add: span_def)
qed

lemma posAt_snoc: "shiftWith (posAt xs) c = posAt (xs @ [c])"
  by (simp add: posAt_def)

lemma aligned_shiftForward:
  assumes "aligned text d st" and "current st = Some c"
  shows "text = d @ pending st @ [c] @ remaining (stream (shiftForward st))"
    and "bufEnd (shiftForward st) = posAt (d @ pending st @ [c])"
    and "bufStart (shiftForward st) = posAt (d @ openQuote st)"
    and "buffer (shiftForward st) = buffer st @ [c]"
    and "branch (shiftForward st) = branch st"
  using assms
  by (auto simp: aligned_def shiftForward_def current_def Stream_current_def
      Stream_shiftForward_def posAt_snoc split: list.splits)


lemmas aligned_defs =
  aligned_def pending_def openQuote_def setBranch_def dropBuffer_def reconstructLexemes_def
  location_def Location_create_def enqueued_def

lemma aligned_branchInit:
  assumes al: "aligned text d st" and cur: "current st = Some c"
    and br: "branch st = BranchInit" and w: "branchInit c st = (ts, Inr u)"
  shows "aligned text (d @ reconstructLexemes text ts) u"
  using al br w aligned_shiftForward [OF al cur]
  by (auto simp: branchInit_def Let_def aligned_defs split: if_splits)

lemma aligned_branchId:
  assumes al: "aligned text d st" and cur: "current st = Some c"
    and br: "branch st = BranchId" and w: "branchId c st = (ts, Inr u)"
  shows "aligned text (d @ reconstructLexemes text ts) u"
proof (cases "isIdChar c")
  case True
  with al br w aligned_shiftForward [OF al cur] show ?thesis
    by (auto simp: branchId_def aligned_defs)
next
  case False
  have "span text \<lparr>start = bufStart st, finish = bufEnd st\<rparr> = buffer st"
    using al br by (intro span_middle [where x = d and z = "remaining (stream st)"])
      (simp_all add: aligned_defs)
  with False al br w show ?thesis
    by (auto simp: branchId_def Let_def aligned_defs)
qed

lemma aligned_branchWS:
  assumes al: "aligned text d st" and cur: "current st = Some c"
    and br: "branch st = BranchWS" and w: "branchWS c st = (ts, Inr u)"
  shows "aligned text (d @ reconstructLexemes text ts) u"
proof (cases "isWhitespace c")
  case True
  with al br w aligned_shiftForward [OF al cur] show ?thesis
    by (auto simp: branchWS_def aligned_defs)
next
  case False
  have "span text \<lparr>start = bufStart st, finish = bufEnd st\<rparr> = buffer st"
    using al br by (intro span_middle [where x = d and z = "remaining (stream st)"])
      (simp_all add: aligned_defs)
  with False al br w show ?thesis
    by (auto simp: branchWS_def Let_def aligned_defs)
qed

lemma aligned_branchString:
  assumes al: "aligned text d st" and cur: "current st = Some c"
    and br: "branch st = BranchString" and w: "branchString c st = (ts, Inr u)"
  shows "aligned text (d @ reconstructLexemes text ts) u"
proof (cases \<open>c = CHR ''"''\<close>)
  case False
  with al br w aligned_shiftForward [OF al cur] show ?thesis
    by (auto simp: branchString_def aligned_defs)
next
  case True
  with br w aligned_shiftForward [OF al cur] show ?thesis
    by (auto simp: branchString_def Let_def aligned_defs)
qed

lemma aligned_withBranch:
  assumes "aligned text d st" and "current st = Some c" and "withBranch st c = (ts, Inr u)"
  shows "aligned text (d @ reconstructLexemes text ts) u"
  using assms
  by (cases "branch st")
    (auto simp: withBranch_def
      intro: aligned_branchInit aligned_branchId aligned_branchString aligned_branchWS)

lemma reconstructLexemes_append:
  "reconstructLexemes text (ts @ ts') = reconstructLexemes text ts @ reconstructLexemes text ts'"
  by (simp add: reconstructLexemes_def)

lemma aligned_loop:
  "aligned text d st \<Longrightarrow> loop st = (ts, Inr st') \<Longrightarrow>
   aligned text (d @ reconstructLexemes text ts) st' \<and> remaining (stream st') = []"
proof (induction st arbitrary: d ts rule: loop_steps_induct)
  case (step st)
  show ?case
  proof (cases "current st")
    case None
    with step.prems show ?thesis
      by (auto simp: loop.simps current_None_iff reconstructLexemes_def)
  next
    case (Some c)
    obtain ts1 r1 where w: "withBranch st c = (ts1, r1)" by (cases "withBranch st c")
    show ?thesis
    proof (cases r1)
      case (Inl e)
      with Some w step.prems show ?thesis by (simp add: loop.simps)
    next
      case (Inr update)
      with w have w': "withBranch st c = (ts1, Inr update)" by simp
      obtain ts2 r2 where l: "loop update = (ts2, r2)" by (cases "loop update")
      with Some w' step.prems have l': "loop update = (ts2, Inr st')" and ts: "ts = ts1 @ ts2"
        by (simp_all add: loop_ok_step)
      from step.prems(1) Some w' have "aligned text (d @ reconstructLexemes text ts1) update"
        by (rule aligned_withBranch)
      from step.IH [OF Some w' this l'] ts show ?thesis
        by (simp add: reconstructLexemes_append)
    qed
  qed
qed

lemma aligned_text: "aligned text d st \<Longrightarrow> text = d @ pending st @ remaining (stream st)"
  by (simp add: aligned_def)

lemma aligned_initial: "aligned text [] (addInput initialState (withIterable text))"
  by (simp add: aligned_defs addInput_def initialState_def State_create_def withIterable_def
      posAt_def)

text \<open>
  C3, as stated: the spans of the token locations and the literal parentheses reconstruct
  every input that tokenizes without error. The span of a String token does not cover
  the opening quote, and an identifier that ends the input is emitted by no token.
\<close>

theorem round_trip_counterexample:
  \<open>snd (tokenStream (chunkSource [''"a"''])) = None \<and>
   reconstruct ''"a"'' (fst (tokenStream (chunkSource [''"a"'']))) \<noteq> ''"a"'' \<and>
   snd (tokenStream (chunkSource [''ab''])) = None \<and>
   reconstruct ''ab'' (fst (tokenStream (chunkSource [''ab'']))) \<noteq> ''ab''\<close>
  by code_simp

text \<open>
  C3, amended: when an input text tokenizes without error, the spans of the locations of
  its Whitespace and Identifier tokens, the content of each String token between two
  double quotes, and the literal parentheses, concatenated in emission order and
  followed by the text still pending in the residual state, are the input text; when
  the residual state is in the Init branch, nothing is pending.
\<close>

theorem round_trip_with_pending:
  "withState initialState (withIterable text) = (ts, Inr st') \<Longrightarrow>
   reconstructLexemes text ts @ pending st' = text \<and>
   (branch st' = BranchInit \<longrightarrow> reconstructLexemes text ts = text)"
proof -
  assume "withState initialState (withIterable text) = (ts, Inr st')"
  then have "loop (addInput initialState (withIterable text)) = (ts, Inr st')"
    by (simp add: withState_def)
  note r = aligned_loop [OF aligned_initial this]
  from r have b: "remaining (stream st') = []"
    by (rule conjunct2)
  from r have "aligned text ([] @ reconstructLexemes text ts) st'"
    by (rule conjunct1)
  then have "text = ([] @ reconstructLexemes text ts) @ pending st' @ remaining (stream st')"
    by (rule aligned_text)
  then have "text = reconstructLexemes text ts @ pending st'"
    unfolding b by (simp only: append_Nil append_Nil2)
  then have t: "reconstructLexemes text ts @ pending st' = text"
    by (rule sym)
  from r have "branch st' = BranchInit \<longrightarrow> pending st' = []"
    by (simp add: aligned_def pending_def openQuote_def)
  with t show ?thesis
    by auto
qed

theorem round_trip_with_pending_witness:
  \<open>withState initialState (withIterable ''(a "b"\<newline> cd'') =
     ([LParenLexicon
         \<lparr>start = \<lparr>line = 0, column = 0\<rparr>, finish = \<lparr>line = 0, column = 1\<rparr>\<rparr>,
       IdentifierLexicon ''a''
         \<lparr>start = \<lparr>line = 0, column = 1\<rparr>, finish = \<lparr>line = 0, column = 2\<rparr>\<rparr>,
       WhiteSpaceLexicon 1
         \<lparr>start = \<lparr>line = 0, column = 2\<rparr>, finish = \<lparr>line = 0, column = 3\<rparr>\<rparr>,
       StringLexicon ''b''
         \<lparr>start = \<lparr>line = 0, column = 4\<rparr>, finish = \<lparr>line = 0, column = 6\<rparr>\<rparr>,
       WhiteSpaceLexicon 2
         \<lparr>start = \<lparr>line = 0, column = 6\<rparr>, finish = \<lparr>line = 1, column = 1\<rparr>\<rparr>],
      Inr \<lparr>stream = withIterable [], branch = BranchId, buffer = ''cd'',
         bufStart = \<lparr>line = 1, column = 1\<rparr>, bufEnd = \<lparr>line = 1, column = 3\<rparr>\<rparr>) \<and>
   reconstructLexemes ''(a "b"\<newline> cd''
     [LParenLexicon
         \<lparr>start = \<lparr>line = 0, column = 0\<rparr>, finish = \<lparr>line = 0, column = 1\<rparr>\<rparr>,
       IdentifierLexicon ''a''
         \<lparr>start = \<lparr>line = 0, column = 1\<rparr>, finish = \<lparr>line = 0, column = 2\<rparr>\<rparr>,
       WhiteSpaceLexicon 1
         \<lparr>start = \<lparr>line = 0, column = 2\<rparr>, finish = \<lparr>line = 0, column = 3\<rparr>\<rparr>,
       StringLexicon ''b''
         \<lparr>start = \<lparr>line = 0, column = 4\<rparr>, finish = \<lparr>line = 0, column = 6\<rparr>\<rparr>,
       WhiteSpaceLexicon 2
         \<lparr>start = \<lparr>line = 0, column = 6\<rparr>, finish = \<lparr>line = 1, column = 1\<rparr>\<rparr>] @ ''cd'' =
     ''(a "b"\<newline> cd''\<close>
proof -
  have h: \<open>withState initialState (withIterable ''(a "b"\<newline> cd'') =
     ([LParenLexicon
         \<lparr>start = \<lparr>line = 0, column = 0\<rparr>, finish = \<lparr>line = 0, column = 1\<rparr>\<rparr>,
       IdentifierLexicon ''a''
         \<lparr>start = \<lparr>line = 0, column = 1\<rparr>, finish = \<lparr>line = 0, column = 2\<rparr>\<rparr>,
       WhiteSpaceLexicon 1
         \<lparr>start = \<lparr>line = 0, column = 2\<rparr>, finish = \<lparr>line = 0, column = 3\<rparr>\<rparr>,
       StringLexicon ''b''
         \<lparr>start = \<lparr>line = 0, column = 4\<rparr>, finish = \<lparr>line = 0, column = 6\<rparr>\<rparr>,
       WhiteSpaceLexicon 2
         \<lparr>start = \<lparr>line = 0, column = 6\<rparr>, finish = \<lparr>line = 1, column = 1\<rparr>\<rparr>],
      Inr \<lparr>stream = withIterable [], branch = BranchId, buffer = ''cd'',
         bufStart = \<lparr>line = 1, column = 1\<rparr>, bufEnd = \<lparr>line = 1, column = 3\<rparr>\<rparr>)\<close>
    by code_simp
  from round_trip_with_pending [OF h] h show ?thesis
    by (simp add: pending_def openQuote_def)
qed

end
